theory Spec2Isabelle
  imports Complex_Main
begin

section \<open>Values, dictionaries and OSC messages\<close>

text \<open>
  The relay of \<^verbatim>\<open>main.py\<close> performs no arithmetic on the numbers it forwards, so
  the type of Python floats is a parameter \<open>'f\<close>; the only operation applied to a float
  is \<^verbatim>\<open>float.__repr__\<close> inside \<^verbatim>\<open>json.dumps\<close>, which is passed along as the function
  \<open>float_repr\<close>. The attributes \<^verbatim>\<open>beat_processor.tempo\<close> and
  \<^verbatim>\<open>beat_processor.counter\<close> hold numbers, either floats or (unbounded) integers.
\<close>

datatype 'f pyval = PyFloat 'f | PyInt int

text \<open>A Python 3 \<^verbatim>\<open>dict\<close> keeps its keys in insertion order: an association list.\<close>

type_synonym 'f pydict = "(string \<times> 'f pyval) list"

text \<open>
  The argument of \<^verbatim>\<open>send_message(address, value)\<close>: the source passes either a
  string (the JSON text) or an integer.
\<close>

datatype osc_arg = OscStr string | OscInt int

type_synonym osc_message = "string \<times> osc_arg"

section \<open>\<^verbatim>\<open>json.dumps\<close> on a dictionary of numbers\<close>

definition digit_char :: "nat \<Rightarrow> char" where
  "digit_char d = ''0123456789'' ! d"

fun str_nat :: "nat \<Rightarrow> string" where
  "str_nat n =
     (if n < 10 then [digit_char n]
      else str_nat (n div 10) @ [digit_char (n mod 10)])"

declare str_nat.simps [simp del]

definition str_int :: "int \<Rightarrow> string" where
  "str_int i = (if i < 0 then ''-'' @ str_nat (nat (- i)) else str_nat (nat i))"

text \<open>A key without characters to escape is written between double quotes.\<close>

definition quote :: "string \<Rightarrow> string" where
  "quote s = CHR 0x22 # s @ [CHR 0x22]"

fun dumps_val :: "('f \<Rightarrow> string) \<Rightarrow> 'f pyval \<Rightarrow> string" where
  "dumps_val float_repr (PyFloat x) = float_repr x"
| "dumps_val float_repr (PyInt i) = str_int i"

text \<open>The default separators of \<^verbatim>\<open>json.dumps\<close> are \<^verbatim>\<open>", "\<close> and \<^verbatim>\<open>": "\<close>.\<close>

fun dumps_items :: "('f \<Rightarrow> string) \<Rightarrow> 'f pydict \<Rightarrow> string" where
  "dumps_items float_repr [] = []"
| "dumps_items float_repr [(k, v)] = quote k @ '': '' @ dumps_val float_repr v"
| "dumps_items float_repr ((k, v) # kvs) =
     quote k @ '': '' @ dumps_val float_repr v @ '', '' @ dumps_items float_repr kvs"

definition json_dumps :: "('f \<Rightarrow> string) \<Rightarrow> 'f pydict \<Rightarrow> string" where
  "json_dumps float_repr d = ''{'' @ dumps_items float_repr d @ ''}''"

section \<open>The world \<^verbatim>\<open>outproc\<close> acts on\<close>

text \<open>
  \<^verbatim>\<open>outproc\<close> is a closure over \<^verbatim>\<open>beat_processor\<close> and \<^verbatim>\<open>osc_client\<close>. The state it
  reads and writes is made explicit:
  \<^item> \<open>tempo\<close>, \<open>counter\<close>: the two attributes of \<^verbatim>\<open>beat_processor\<close> it reads;
  \<^item> \<open>stdout\<close>: the dictionaries printed by \<^verbatim>\<open>print(msg)\<close>, in order;
  \<^item> \<open>calls\<close>: every \<^verbatim>\<open>send_message\<close> call made so far, in order;
  \<^item> \<open>wire\<close>: the messages the socket accepted, in order.
\<close>

record 'f world =
  tempo :: "'f pyval"
  counter :: "'f pyval"
  stdout :: "'f pydict list"
  calls :: "osc_message list"
  wire :: "osc_message list"

text \<open>
  A call either returns or raises; in both cases the world may have changed. Two
  exceptions are considered: the \<^verbatim>\<open>OSError\<close> of the socket beneath \<^verbatim>\<open>send_message\<close>,
  and the \<^verbatim>\<open>KeyboardInterrupt\<close> that the interpreter raises in the running code when
  the process receives the interrupt signal.
\<close>

datatype error = OSError | KeyboardInterrupt

datatype 'w outcome = Returned 'w | Raised error 'w

fun world_of :: "'w outcome \<Rightarrow> 'w" where
  "world_of (Returned w) = w"
| "world_of (Raised e w) = w"

fun is_Returned :: "'w outcome \<Rightarrow> bool" where
  "is_Returned (Returned w) = True"
| "is_Returned (Raised e w) = False"

text \<open>
  Sequencing of two statements: when the first raises, the second is not run and the
  exception propagates (the source has no \<^verbatim>\<open>try\<close>).
\<close>

definition and_then :: "'w outcome \<Rightarrow> ('w \<Rightarrow> 'w outcome) \<Rightarrow> 'w outcome" where
  "and_then r f = (case r of Returned w \<Rightarrow> f w | Raised e w \<Rightarrow> Raised e w)"

text \<open>
  The network is the environment: \<open>link n\<close> tells whether the socket accepts the
  \<open>n\<close>-th \<^verbatim>\<open>send_message\<close> call of the run (counted from 0).
\<close>

type_synonym link = "nat \<Rightarrow> bool"

definition print_dict :: "'f pydict \<Rightarrow> 'f world \<Rightarrow> 'f world" where
  "print_dict d w = w\<lparr>stdout := stdout w @ [d]\<rparr>"

definition send_message :: "link \<Rightarrow> string \<Rightarrow> osc_arg \<Rightarrow> 'f world \<Rightarrow> 'f world outcome" where
  "send_message link address val w =
     (let w' = w\<lparr>calls := calls w @ [(address, val)]\<rparr>
      in if link (length (calls w))
         then Returned (w'\<lparr>wire := wire w @ [(address, val)]\<rparr>)
         else Raised OSError w')"

section \<open>\<^verbatim>\<open>outproc\<close>\<close>

text \<open>Lines 109 to 113: the dictionary built for one beat.\<close>

definition beat_dict :: "'f world \<Rightarrow> 'f \<Rightarrow> 'f pydict" where
  "beat_dict w beat =
     [(''beat'', PyFloat beat), (''tempo'', tempo w), (''counter'', counter w)]"

text \<open>Lines 109 to 117: the body of the \<^verbatim>\<open>for\<close> loop.\<close>

definition outproc_body ::
  "link \<Rightarrow> ('f \<Rightarrow> string) \<Rightarrow> 'f \<Rightarrow> 'f world \<Rightarrow> 'f world outcome" where
  "outproc_body link float_repr beat w =
     (let msg = beat_dict w beat;
          w1 = print_dict msg w
      in and_then
           (and_then
              (send_message link ''/tempo/beat'' (OscStr (json_dumps float_repr msg)) w1)
              (send_message link ''/tempo/tap'' (OscInt 255)))
           (send_message link ''/tempo/tap'' (OscInt 0)))"

text \<open>Line 108: the \<^verbatim>\<open>for\<close> loop over the array of beats.\<close>

fun for_beats ::
  "link \<Rightarrow> ('f \<Rightarrow> string) \<Rightarrow> 'f list \<Rightarrow> 'f world \<Rightarrow> 'f world outcome" where
  "for_beats link float_repr [] w = Returned w"
| "for_beats link float_repr (beat # beats) w =
     and_then (outproc_body link float_repr beat w) (for_beats link float_repr beats)"

text \<open>Lines 106 to 117; \<^verbatim>\<open>beats.size\<close> is the length of the array.\<close>

definition outproc ::
  "link \<Rightarrow> ('f \<Rightarrow> string) \<Rightarrow> 'f list \<Rightarrow> 'f world \<Rightarrow> 'f world outcome" where
  "outproc link float_repr beats w =
     (if length beats > 0 then for_beats link float_repr beats w else Returned w)"

section \<open>\<^verbatim>\<open>outproc\<close> under cancellation\<close>

text \<open>
  The source installs no signal handler and has no \<^verbatim>\<open>try\<close>: when the process receives
  the interrupt signal, the interpreter raises \<^verbatim>\<open>KeyboardInterrupt\<close> in the running
  code, between two of its instructions, and the exception leaves \<^verbatim>\<open>outproc\<close>. Where
  the signal falls is the environment's choice: \<open>sigint n\<close> tells that it is taken when
  \<open>n\<close> calls of \<^verbatim>\<open>send_message\<close> have been made and the next one is about to be made.
  The calls before it are complete; the call about to be made is not made. Positions of
  the signal that differ only in whether the dictionary of the beat has been printed are
  not told apart. The functions below are lines 106 to 117 again, with this check before
  each call; lemma \<open>outproc_no_signal\<close> shows that without a signal they are the
  functions of the previous section.
\<close>

type_synonym signal = "nat \<Rightarrow> bool"

definition send_message_sigint ::
  "signal \<Rightarrow> link \<Rightarrow> string \<Rightarrow> osc_arg \<Rightarrow> 'f world \<Rightarrow> 'f world outcome" where
  "send_message_sigint sigint link address val w =
     (if sigint (length (calls w)) then Raised KeyboardInterrupt w
      else send_message link address val w)"

definition outproc_body_sigint ::
  "signal \<Rightarrow> link \<Rightarrow> ('f \<Rightarrow> string) \<Rightarrow> 'f \<Rightarrow> 'f world \<Rightarrow> 'f world outcome" where
  "outproc_body_sigint sigint link float_repr beat w =
     (let msg = beat_dict w beat;
          w1 = print_dict msg w
      in and_then
           (and_then
              (send_message_sigint sigint link ''/tempo/beat''
                 (OscStr (json_dumps float_repr msg)) w1)
              (send_message_sigint sigint link ''/tempo/tap'' (OscInt 255)))
           (send_message_sigint sigint link ''/tempo/tap'' (OscInt 0)))"

fun for_beats_sigint ::
  "signal \<Rightarrow> link \<Rightarrow> ('f \<Rightarrow> string) \<Rightarrow> 'f list \<Rightarrow> 'f world \<Rightarrow> 'f world outcome" where
  "for_beats_sigint sigint link float_repr [] w = Returned w"
| "for_beats_sigint sigint link float_repr (beat # beats) w =
     and_then (outproc_body_sigint sigint link float_repr beat w)
       (for_beats_sigint sigint link float_repr beats)"

definition outproc_sigint ::
  "signal \<Rightarrow> link \<Rightarrow> ('f \<Rightarrow> string) \<Rightarrow> 'f list \<Rightarrow> 'f world \<Rightarrow> 'f world outcome" where
  "outproc_sigint sigint link float_repr beats w =
     (if length beats > 0 then for_beats_sigint sigint link float_repr beats w
      else Returned w)"

section \<open>The pipeline over a run\<close>

text \<open>
  Lines 120 to 126: \<^verbatim>\<open>out_processor = [beat_processor, outproc]\<close> is run by the
  library once per chunk of input: the decoder updates its attributes and returns the
  beats of the chunk, which are handed to \<^verbatim>\<open>outproc\<close>. The decoder is not part of the
  repository; what it produces for a chunk is a parameter of the model. The lines have
  no \<^verbatim>\<open>try\<close> either: an exception that leaves \<^verbatim>\<open>outproc\<close> ends the run.
\<close>

record 'f decoded =
  new_tempo :: "'f pyval"
  new_counter :: "'f pyval"
  beats_of :: "'f list"

definition beat_processor :: "'f decoded \<Rightarrow> 'f world \<Rightarrow> 'f world" where
  "beat_processor c w = w\<lparr>tempo := new_tempo c, counter := new_counter c\<rparr>"

definition out_processor ::
  "link \<Rightarrow> ('f \<Rightarrow> string) \<Rightarrow> 'f decoded \<Rightarrow> 'f world \<Rightarrow> 'f world outcome" where
  "out_processor link float_repr c w =
     outproc link float_repr (beats_of c) (beat_processor c w)"

fun relay ::
  "link \<Rightarrow> ('f \<Rightarrow> string) \<Rightarrow> 'f decoded list \<Rightarrow> 'f world \<Rightarrow> 'f world outcome" where
  "relay link float_repr [] w = Returned w"
| "relay link float_repr (c # cs) w =
     and_then (out_processor link float_repr c w) (relay link float_repr cs)"

section \<open>Argument processing in \<^verbatim>\<open>main\<close>\<close>

text \<open>
  Lines 87 to 104. The namespace returned by \<^verbatim>\<open>parse_args\<close> is a finite map from
  attribute names to values; \<^verbatim>\<open>vars(args)\<close> is that map. Only integers matter here,
  every other value is opaque.
\<close>

datatype 'a argval = IntArg int | OtherArg 'a

type_synonym 'a namespace = "string \<rightharpoonup> 'a argval"

record 'a wiring =
  in_processor_kwargs :: "'a namespace"
  beat_processor_kwargs :: "'a namespace"
  osc_endpoint :: "'a argval option \<times> 'a argval option"

definition main_wiring :: "'a namespace \<Rightarrow> 'a wiring" where
  "main_wiring parsed =
     (let args = parsed(''fps'' \<mapsto> IntArg 100)
      in \<lparr>in_processor_kwargs = args,
          beat_processor_kwargs = args,
          osc_endpoint = (args ''ip'', args ''port'')\<rparr>)"

text \<open>
  Line 104 creates the client; before the first chunk nothing has been printed by
  \<^verbatim>\<open>outproc\<close> and nothing has been sent.
\<close>

definition initial_world :: "'f pyval \<Rightarrow> 'f pyval \<Rightarrow> 'f world" where
  "initial_world t c = \<lparr>tempo = t, counter = c, stdout = [], calls = [], wire = []\<rparr>"

section \<open>Vocabulary of the properties\<close>

text \<open>
  The definitions of this section are not part of the program: they name what the
  properties below compare the program with.
\<close>

text \<open>The three messages expected for the dictionary of one beat.\<close>

definition pulse_triple :: "('f \<Rightarrow> string) \<Rightarrow> 'f pydict \<Rightarrow> osc_message list" where
  "pulse_triple float_repr msg =
     [(''/tempo/beat'', OscStr (json_dumps float_repr msg)),
      (''/tempo/tap'', OscInt 255),
      (''/tempo/tap'', OscInt 0)]"

text \<open>The messages expected for the beats of one call, in the order of the beats.\<close>

definition script :: "('f \<Rightarrow> string) \<Rightarrow> 'f world \<Rightarrow> 'f list \<Rightarrow> osc_message list" where
  "script float_repr w beats =
     concat (map (\<lambda>beat. pulse_triple float_repr (beat_dict w beat)) beats)"

text \<open>The same for one decoded chunk and for the chunks of a run, in their order.\<close>

definition chunk_messages :: "('f \<Rightarrow> string) \<Rightarrow> 'f decoded \<Rightarrow> osc_message list" where
  "chunk_messages float_repr c =
     concat (map (\<lambda>beat. pulse_triple float_repr
        [(''beat'', PyFloat beat), (''tempo'', new_tempo c), (''counter'', new_counter c)])
        (beats_of c))"

definition expected_messages :: "('f \<Rightarrow> string) \<Rightarrow> 'f decoded list \<Rightarrow> osc_message list" where
  "expected_messages float_repr cs = concat (map (chunk_messages float_repr) cs)"

definition beat_count :: "'f decoded list \<Rightarrow> nat" where
  "beat_count cs = sum_list (map (\<lambda>c. length (beats_of c)) cs)"

definition data_message ::
  "('f \<Rightarrow> string) \<Rightarrow> 'f pyval \<Rightarrow> 'f pyval \<Rightarrow> 'f \<Rightarrow> osc_message" where
  "data_message float_repr t c beat =
     (''/tempo/beat'', OscStr (json_dumps float_repr
        [(''beat'', PyFloat beat), (''tempo'', t), (''counter'', c)]))"

text \<open>
  \<open>accepted link n m\<close> counts how many of the \<open>m\<close> calls numbered \<open>n\<close>, \<open>n + 1\<close>, ...
  the socket accepts before it refuses one; \<open>accepts link n m\<close> says that it accepts
  all \<open>m\<close> of them.
\<close>

fun accepted :: "link \<Rightarrow> nat \<Rightarrow> nat \<Rightarrow> nat" where
  "accepted link n 0 = 0"
| "accepted link n (Suc m) = (if link n then Suc (accepted link (Suc n) m) else 0)"

definition accepts :: "link \<Rightarrow> nat \<Rightarrow> nat \<Rightarrow> bool" where
  "accepts link n m = (accepted link n m = m)"

text \<open>
  The world after the messages \<open>s\<close> were attempted in order from the world \<open>w\<close>, when
  the first \<open>a\<close> of them were accepted: \<open>a\<close> messages are on the wire, the refused one
  (if any) was the last call, and one dictionary was printed per beat begun.
\<close>

definition after_sends ::
  "'f world \<Rightarrow> 'f pydict list \<Rightarrow> osc_message list \<Rightarrow> nat \<Rightarrow> 'f world outcome" where
  "after_sends w printed s a =
     (let w' = w\<lparr>stdout := stdout w @ take (Suc (a div 3)) printed,
                  calls := calls w @ take (Suc a) s,
                  wire := wire w @ take a s\<rparr>
      in if a = length s then Returned w' else Raised OSError w')"

text \<open>
  Under cancellation a call goes through when no signal is taken before it and the
  socket accepts it. \<open>after_sends_sigint\<close> is \<open>after_sends\<close> with the two ways of
  stopping told apart: a signal leaves the call unmade, a refusal leaves it made.
\<close>

definition goes_through :: "signal \<Rightarrow> link \<Rightarrow> nat \<Rightarrow> bool" where
  "goes_through sigint link n = (\<not> sigint n \<and> link n)"

definition after_sends_sigint ::
  "signal \<Rightarrow> 'f world \<Rightarrow> 'f pydict list \<Rightarrow> osc_message list \<Rightarrow> nat \<Rightarrow> 'f world outcome" where
  "after_sends_sigint sigint w printed s a =
     (let w' = w\<lparr>stdout := stdout w @ take (Suc (a div 3)) printed,
                  wire := wire w @ take a s\<rparr>
      in if a = length s then Returned (w'\<lparr>calls := calls w @ s\<rparr>)
         else if sigint (length (calls w) + a)
           then Raised KeyboardInterrupt (w'\<lparr>calls := calls w @ take a s\<rparr>)
           else Raised OSError (w'\<lparr>calls := calls w @ take (Suc a) s\<rparr>))"

text \<open>What a call added to the wire.\<close>

definition emitted :: "'f world \<Rightarrow> 'f world outcome \<Rightarrow> osc_message list" where
  "emitted w r = drop (length (wire w)) (wire (world_of r))"

text \<open>The wire at the end of a run that started with a fresh client.\<close>

definition run_wire ::
  "link \<Rightarrow> ('f \<Rightarrow> string) \<Rightarrow> 'f decoded list \<Rightarrow> 'f pyval \<Rightarrow> 'f pyval \<Rightarrow> osc_message list" where
  "run_wire link float_repr cs t c =
     wire (world_of (relay link float_repr cs (initial_world t c)))"

text \<open>The payloads seen on the channel \<^verbatim>\<open>/tempo/tap\<close>, in order.\<close>

definition tap_payloads :: "osc_message list \<Rightarrow> osc_arg list" where
  "tap_payloads ms = map snd (filter (\<lambda>m. fst m = ''/tempo/tap'') ms)"

text \<open>The alternation 255, 0, 255, 0, ... of a given length.\<close>

fun pulse_train :: "nat \<Rightarrow> osc_arg list" where
  "pulse_train 0 = []"
| "pulse_train (Suc n) = pulse_train n @ [OscInt (if even n then 255 else 0)]"

text \<open>Triples built from a list of data payloads.\<close>

definition frame :: "osc_arg list \<Rightarrow> osc_message list" where
  "frame ds =
     concat (map (\<lambda>d. [(''/tempo/beat'', d), (''/tempo/tap'', OscInt 255),
        (''/tempo/tap'', OscInt 0)]) ds)"

section \<open>Concrete inputs\<close>

text \<open>
  Three Python floats and their \<^verbatim>\<open>repr\<close>, enough to run the program on the scenario of
  the specification: a beat at 1.20 s, tempo 120.0, counter 4.
\<close>

datatype example_float = Float_1_2 | Float_1_7 | Float_120_0

fun repr_example :: "example_float \<Rightarrow> string" where
  "repr_example Float_1_2 = ''1.2''"
| "repr_example Float_1_7 = ''1.7''"
| "repr_example Float_120_0 = ''120.0''"

definition scenario_world :: "example_float world" where
  "scenario_world =
     \<lparr>tempo = PyFloat Float_120_0, counter = PyInt 4, stdout = [], calls = [], wire = []\<rparr>"

definition after_first_beat :: "example_float world" where
  "after_first_beat =
     \<lparr>tempo = PyFloat Float_120_0, counter = PyInt 4,
      stdout = [[(''beat'', PyFloat Float_1_2), (''tempo'', PyFloat Float_120_0),
                 (''counter'', PyInt 4)]],
      calls = [(''/tempo/beat'', OscStr ''{\"beat\": 1.2, \"tempo\": 120.0, \"counter\": 4}''),
               (''/tempo/tap'', OscInt 255), (''/tempo/tap'', OscInt 0)],
      wire = [(''/tempo/beat'', OscStr ''{\"beat\": 1.2, \"tempo\": 120.0, \"counter\": 4}''),
              (''/tempo/tap'', OscInt 255), (''/tempo/tap'', OscInt 0)]\<rparr>"

definition three_chunks :: "example_float decoded list" where
  "three_chunks =
     [\<lparr>new_tempo = PyFloat Float_120_0, new_counter = PyInt 100, beats_of = [Float_1_2]\<rparr>,
      \<lparr>new_tempo = PyFloat Float_120_0, new_counter = PyInt 200, beats_of = []\<rparr>,
      \<lparr>new_tempo = PyFloat Float_120_0, new_counter = PyInt 300, beats_of = [Float_1_7]\<rparr>]"

text \<open>A network that accepts everything, and two that refuse exactly one call.\<close>

definition always_up :: link where
  "always_up n = True"

definition first_call_fails :: link where
  "first_call_fails n = (n \<noteq> 0)"

definition fifth_call_fails :: link where
  "fifth_call_fails n = (n \<noteq> 4)"

text \<open>No signal at all, and a signal taken when \<open>k\<close> calls have been made.\<close>

definition no_signal :: signal where
  "no_signal n = False"

definition sigint_at :: "nat \<Rightarrow> signal" where
  "sigint_at k n = (n = k)"

section \<open>The network\<close>

lemma accepted_le: "accepted link n m \<le> m"
  by (induction m arbitrary: n) auto

lemma accepted_add:
  "accepted link n (p + q) =
     (if accepted link n p = p then p + accepted link (n + p) q else accepted link n p)"
  by (induction p arbitrary: n) auto

lemma accepted_3:
  "accepted link n 3 =
     (if link n then if link (Suc n) then if link (Suc (Suc n)) then 3 else 2 else 1 else 0)"
  by (simp add: numeral_3_eq_3)

lemma accepted_fail_now: "\<not> link n \<Longrightarrow> accepted link n m = 0"
  by (cases m) simp_all

lemma accepts_accepted: "accepts link n m \<Longrightarrow> accepted link n m = m"
  by (simp add: accepts_def)

lemma accepts_iff: "accepts link n m = (\<forall>i<m. link (n + i))"
proof (induction m arbitrary: n)
  case 0
  show ?case by (simp add: accepts_def)
next
  case (Suc m)
  have "accepts link n (Suc m) = (link n \<and> accepts link (Suc n) m)"
    by (simp add: accepts_def)
  also have "\<dots> = (link n \<and> (\<forall>i<m. link (Suc n + i)))"
    by (simp only: Suc.IH)
  also have "\<dots> = (\<forall>i<Suc m. link (n + i))"
    by (auto simp: less_Suc_eq_0_disj)
  finally show ?case .
qed

lemma accepted_first_failure:
  assumes "k < m" "accepts link n k" "\<not> link (n + k)"
  shows "accepted link n m = k"
proof -
  define q where "q = m - Suc k"
  have m: "m = k + Suc q"
    using assms(1) by (simp add: q_def)
  have "accepted link n (k + Suc q) = k + accepted link (n + k) (Suc q)"
    using assms(2) by (simp only: accepted_add accepts_def if_True simp_thms)
  also have "\<dots> = k" using assms(3) by simp
  finally show ?thesis by (simp only: m)
qed

lemma accepts_always_up: "accepts always_up n m"
  by (simp add: accepts_iff always_up_def)

lemma accepted_always_up: "accepted always_up n m = m"
  using accepts_always_up [of n m] by (simp add: accepts_def)

section \<open>One call of \<^verbatim>\<open>outproc\<close> in closed form\<close>

text \<open>
  The outcome of the loop is determined by the number of calls the socket accepts
  before the first refusal: the lemmas \<open>outproc_body_eq\<close>, \<open>for_beats_eq\<close> and
  \<open>outproc_eq\<close> say so for the body, the loop and the function.
\<close>

lemma length_pulse_triple [simp]: "length (pulse_triple r d) = 3"
  by (simp add: pulse_triple_def)

lemma length_script [simp]: "length (script r w bs) = 3 * length bs"
  by (induction bs) (simp_all add: script_def)

lemma script_Cons:
  "script r w (b # bs) = pulse_triple r (beat_dict w b) @ script r w bs"
  by (simp add: script_def)

lemma script_slice:
  "i < length bs \<Longrightarrow>
   take 3 (drop (3 * i) (script r w bs)) = pulse_triple r (beat_dict w (bs ! i))"
proof (induction bs arbitrary: i)
  case Nil
  then show ?case by simp
next
  case (Cons b bs)
  show ?case
  proof (cases i)
    case 0
    then show ?thesis by (simp add: script_Cons)
  next
    case (Suc j)
    then have j: "j < length bs" using Cons.prems by simp
    have "drop (3 * i) (script r w (b # bs)) = drop (3 * j) (script r w bs)"
      by (simp add: Suc script_Cons)
    then show ?thesis by (simp add: Cons.IH [OF j] Suc)
  qed
qed

lemma take_drop_take:
  "k + 3 \<le> a \<Longrightarrow> take 3 (drop k (take a xs)) = take 3 (drop k xs)"
  by (simp add: drop_take min_def)

lemma send_message_ok:
  "link (length (calls w)) \<Longrightarrow>
   send_message link a v w =
     Returned (w\<lparr>calls := calls w @ [(a, v)], wire := wire w @ [(a, v)]\<rparr>)"
  by (simp add: send_message_def)

lemma send_message_fail:
  "\<not> link (length (calls w)) \<Longrightarrow>
   send_message link a v w = Raised OSError (w\<lparr>calls := calls w @ [(a, v)]\<rparr>)"
  by (simp add: send_message_def)

lemma outproc_body_eq:
  "outproc_body link r b w =
     after_sends w [beat_dict w b] (pulse_triple r (beat_dict w b))
       (accepted link (length (calls w)) 3)"
proof -
  let ?n = "length (calls w)"
  consider (f0) "\<not> link ?n"
    | (f1) "link ?n" "\<not> link (Suc ?n)"
    | (f2) "link ?n" "link (Suc ?n)" "\<not> link (Suc (Suc ?n))"
    | (ok) "link ?n" "link (Suc ?n)" "link (Suc (Suc ?n))"
    by blast
  then show ?thesis
  proof cases
    case f0
    then show ?thesis
      by (simp add: outproc_body_def Let_def print_dict_def send_message_fail and_then_def
          accepted_3 after_sends_def pulse_triple_def)
  next
    case f1
    then show ?thesis
      by (simp add: outproc_body_def Let_def print_dict_def send_message_fail
          send_message_ok and_then_def accepted_3 after_sends_def pulse_triple_def)
  next
    case f2
    then show ?thesis
      by (simp add: outproc_body_def Let_def print_dict_def send_message_fail
          send_message_ok and_then_def accepted_3 after_sends_def pulse_triple_def)
  next
    case ok
    then show ?thesis
      by (simp add: outproc_body_def Let_def print_dict_def
          send_message_ok and_then_def accepted_3 after_sends_def pulse_triple_def)
  qed
qed

lemma after_sends_shift:
  "length t = 3 \<Longrightarrow>
   after_sends (w\<lparr>stdout := stdout w @ [d], calls := calls w @ t, wire := wire w @ t\<rparr>)
     printed s a =
   after_sends w (d # printed) (t @ s) (3 + a)"
  by (simp add: after_sends_def)

lemma after_sends_short:
  "a < 3 \<Longrightarrow> length t = 3 \<Longrightarrow>
   after_sends w (d # printed) (t @ s) a = after_sends w [d] t a"
  by (simp add: after_sends_def)

lemma for_beats_eq:
  "for_beats link r bs w =
     after_sends w (map (beat_dict w) bs) (script r w bs)
       (accepted link (length (calls w)) (3 * length bs))"
proof (induction bs arbitrary: w)
  case Nil
  show ?case by (simp add: after_sends_def script_def)
next
  case (Cons b bs)
  let ?n = "length (calls w)"
  let ?d = "beat_dict w b"
  let ?t = "pulse_triple r ?d"
  let ?a = "accepted link ?n 3"
  have split: "accepted link ?n (3 * length (b # bs)) =
      (if ?a = 3 then 3 + accepted link (?n + 3) (3 * length bs) else ?a)"
    using accepted_add [of link ?n 3 "3 * length bs"] by simp
  have le: "?a \<le> 3" by (rule accepted_le)
  show ?case
  proof (cases "?a = 3")
    case True
    define w1 where "w1 = w\<lparr>stdout := stdout w @ [?d],
                  calls := calls w @ ?t, wire := wire w @ ?t\<rparr>"
    have body: "outproc_body link r b w = Returned w1"
      using True by (simp add: outproc_body_eq after_sends_def w1_def)
    have same: "beat_dict w1 = beat_dict w"
      by (rule ext) (simp add: beat_dict_def w1_def)
    have scr: "script r w1 bs = script r w bs"
      by (simp add: script_def same)
    have n1: "length (calls w1) = ?n + 3" by (simp add: w1_def)
    have "for_beats link r (b # bs) w = for_beats link r bs w1"
      by (simp add: body and_then_def)
    also have "\<dots> = after_sends w1 (map (beat_dict w) bs) (script r w bs)
        (accepted link (?n + 3) (3 * length bs))"
      by (simp only: Cons.IH same scr n1)
    also have "\<dots> = after_sends w (?d # map (beat_dict w) bs) (?t @ script r w bs)
        (3 + accepted link (?n + 3) (3 * length bs))"
      unfolding w1_def by (rule after_sends_shift) simp
    finally show ?thesis
      using True by (simp only: split script_Cons list.map if_True simp_thms)
  next
    case False
    with le have lt: "?a < 3" by simp
    have "for_beats link r (b # bs) w = after_sends w [?d] ?t ?a"
      using False by (simp add: outproc_body_eq and_then_def after_sends_def)
    also have "\<dots> = after_sends w (?d # map (beat_dict w) bs) (?t @ script r w bs) ?a"
      using lt by (simp add: after_sends_short)
    finally show ?thesis
      using False by (simp only: split script_Cons list.map if_False simp_thms)
  qed
qed

lemma outproc_eq:
  "outproc link r bs w =
     after_sends w (map (beat_dict w) bs) (script r w bs)
       (accepted link (length (calls w)) (3 * length bs))"
  by (cases bs) (simp_all add: outproc_def for_beats_eq after_sends_def script_def)

lemma after_sends_wire: "wire (world_of (after_sends w p s a)) = wire w @ take a s"
  by (simp add: after_sends_def Let_def)

lemma after_sends_calls: "calls (world_of (after_sends w p s a)) = calls w @ take (Suc a) s"
  by (simp add: after_sends_def Let_def)

lemma after_sends_stdout:
  "stdout (world_of (after_sends w p s a)) = stdout w @ take (Suc (a div 3)) p"
  by (simp add: after_sends_def Let_def)

lemma after_sends_tempo: "tempo (world_of (after_sends w p s a)) = tempo w"
  by (simp add: after_sends_def Let_def)

lemma after_sends_counter: "counter (world_of (after_sends w p s a)) = counter w"
  by (simp add: after_sends_def Let_def)

lemma after_sends_Returned: "is_Returned (after_sends w p s a) = (a = length s)"
  by (simp add: after_sends_def Let_def)

lemma emitted_after_sends:
  "emitted w (after_sends w p s a) = take a s"
  by (simp add: emitted_def after_sends_wire)

lemma filter_data_script:
  "filter (\<lambda>m. fst m = ''/tempo/beat'') (script r w bs) =
     map (data_message r (tempo w) (counter w)) bs"
  by (induction bs) (simp_all add: script_def pulse_triple_def beat_dict_def data_message_def)

lemma data_in_script:
  assumes "m \<in> set (script r w bs)" and "fst m = ''/tempo/beat''"
  shows "\<exists>beat\<in>set bs. m = data_message r (tempo w) (counter w) beat"
proof -
  have "m \<in> set (filter (\<lambda>m. fst m = ''/tempo/beat'') (script r w bs))"
    using assms by simp
  then have "m \<in> set (map (data_message r (tempo w) (counter w)) bs)"
    by (simp only: filter_data_script)
  then show ?thesis by auto
qed

lemma json_dumps_three:
  "json_dumps r [(''beat'', PyFloat beat), (''tempo'', t), (''counter'', c)] =
     ''{'' @ quote ''beat'' @ '': '' @ r beat @ '', '' @
       quote ''tempo'' @ '': '' @ dumps_val r t @ '', '' @
       quote ''counter'' @ '': '' @ dumps_val r c @ ''}''"
  by (simp add: json_dumps_def)

section \<open>One call under cancellation in closed form\<close>

lemma send_message_sigint_ok:
  "goes_through sigint link (length (calls w)) \<Longrightarrow>
   send_message_sigint sigint link a v w =
     Returned (w\<lparr>calls := calls w @ [(a, v)], wire := wire w @ [(a, v)]\<rparr>)"
  by (simp add: send_message_sigint_def goes_through_def send_message_ok)

lemma send_message_sigint_int:
  "sigint (length (calls w)) \<Longrightarrow>
   send_message_sigint sigint link a v w = Raised KeyboardInterrupt w"
  by (simp add: send_message_sigint_def)

lemma send_message_sigint_fail:
  "\<not> sigint (length (calls w)) \<Longrightarrow> \<not> link (length (calls w)) \<Longrightarrow>
   send_message_sigint sigint link a v w = Raised OSError (w\<lparr>calls := calls w @ [(a, v)]\<rparr>)"
  by (simp add: send_message_sigint_def send_message_fail)

lemma not_goes_through:
  "\<not> goes_through sigint link n \<Longrightarrow> sigint n \<or> (\<not> sigint n \<and> \<not> link n)"
  by (auto simp: goes_through_def)

lemma outproc_body_sigint_eq:
  "outproc_body_sigint sigint link r b w =
     after_sends_sigint sigint w [beat_dict w b] (pulse_triple r (beat_dict w b))
       (accepted (goes_through sigint link) (length (calls w)) 3)"
proof -
  let ?n = "length (calls w)"
  let ?g = "goes_through sigint link"
  consider (f0) "\<not> ?g ?n"
    | (f1) "?g ?n" "\<not> ?g (Suc ?n)"
    | (f2) "?g ?n" "?g (Suc ?n)" "\<not> ?g (Suc (Suc ?n))"
    | (ok) "?g ?n" "?g (Suc ?n)" "?g (Suc (Suc ?n))"
    by blast
  then show ?thesis
  proof cases
    case f0
    from not_goes_through [OF f0] show ?thesis
    proof
      assume "sigint ?n"
      with f0 show ?thesis
        by (simp add: outproc_body_sigint_def Let_def print_dict_def send_message_sigint_int
            and_then_def accepted_3 after_sends_sigint_def pulse_triple_def)
    next
      assume "\<not> sigint ?n \<and> \<not> link ?n"
      with f0 show ?thesis
        by (simp add: outproc_body_sigint_def Let_def print_dict_def send_message_sigint_fail
            and_then_def accepted_3 after_sends_sigint_def pulse_triple_def)
    qed
  next
    case f1
    from not_goes_through [OF f1(2)] show ?thesis
    proof
      assume "sigint (Suc ?n)"
      with f1 show ?thesis
        by (simp add: outproc_body_sigint_def Let_def print_dict_def send_message_sigint_int
            send_message_sigint_ok and_then_def accepted_3 after_sends_sigint_def
            pulse_triple_def)
    next
      assume "\<not> sigint (Suc ?n) \<and> \<not> link (Suc ?n)"
      with f1 show ?thesis
        by (simp add: outproc_body_sigint_def Let_def print_dict_def send_message_sigint_fail
            send_message_sigint_ok and_then_def accepted_3 after_sends_sigint_def
            pulse_triple_def)
    qed
  next
    case f2
    from not_goes_through [OF f2(3)] show ?thesis
    proof
      assume "sigint (Suc (Suc ?n))"
      with f2 show ?thesis
        by (simp add: outproc_body_sigint_def Let_def print_dict_def send_message_sigint_int
            send_message_sigint_ok and_then_def accepted_3 after_sends_sigint_def
            pulse_triple_def)
    next
      assume "\<not> sigint (Suc (Suc ?n)) \<and> \<not> link (Suc (Suc ?n))"
      with f2 show ?thesis
        by (simp add: outproc_body_sigint_def Let_def print_dict_def send_message_sigint_fail
            send_message_sigint_ok and_then_def accepted_3 after_sends_sigint_def
            pulse_triple_def)
    qed
  next
    case ok
    then show ?thesis
      by (simp add: outproc_body_sigint_def Let_def print_dict_def
          send_message_sigint_ok and_then_def accepted_3 after_sends_sigint_def
          pulse_triple_def)
  qed
qed

lemma after_sends_sigint_shift:
  "length t = 3 \<Longrightarrow>
   after_sends_sigint sigint
     (w\<lparr>stdout := stdout w @ [d], calls := calls w @ t, wire := wire w @ t\<rparr>) printed s a =
   after_sends_sigint sigint w (d # printed) (t @ s) (3 + a)"
  by (simp add: after_sends_sigint_def Let_def add.assoc)

lemma after_sends_sigint_short:
  "a < 3 \<Longrightarrow> length t = 3 \<Longrightarrow>
   after_sends_sigint sigint w (d # printed) (t @ s) a = after_sends_sigint sigint w [d] t a"
  by (simp add: after_sends_sigint_def Let_def)

lemma for_beats_sigint_eq:
  "for_beats_sigint sigint link r bs w =
     after_sends_sigint sigint w (map (beat_dict w) bs) (script r w bs)
       (accepted (goes_through sigint link) (length (calls w)) (3 * length bs))"
proof (induction bs arbitrary: w)
  case Nil
  show ?case by (simp add: after_sends_sigint_def Let_def script_def)
next
  case (Cons b bs)
  let ?g = "goes_through sigint link"
  let ?n = "length (calls w)"
  let ?d = "beat_dict w b"
  let ?t = "pulse_triple r ?d"
  let ?a = "accepted ?g ?n 3"
  have split: "accepted ?g ?n (3 * length (b # bs)) =
      (if ?a = 3 then 3 + accepted ?g (?n + 3) (3 * length bs) else ?a)"
    using accepted_add [of ?g ?n 3 "3 * length bs"] by simp
  have le: "?a \<le> 3" by (rule accepted_le)
  show ?case
  proof (cases "?a = 3")
    case True
    define w1 where "w1 = w\<lparr>stdout := stdout w @ [?d],
                  calls := calls w @ ?t, wire := wire w @ ?t\<rparr>"
    have body: "outproc_body_sigint sigint link r b w = Returned w1"
      using True by (simp add: outproc_body_sigint_eq after_sends_sigint_def Let_def w1_def)
    have same: "beat_dict w1 = beat_dict w"
      by (rule ext) (simp add: beat_dict_def w1_def)
    have scr: "script r w1 bs = script r w bs"
      by (simp add: script_def same)
    have n1: "length (calls w1) = ?n + 3" by (simp add: w1_def)
    have "for_beats_sigint sigint link r (b # bs) w = for_beats_sigint sigint link r bs w1"
      by (simp add: body and_then_def)
    also have "\<dots> = after_sends_sigint sigint w1 (map (beat_dict w) bs) (script r w bs)
        (accepted ?g (?n + 3) (3 * length bs))"
      by (simp only: Cons.IH same scr n1)
    also have "\<dots> = after_sends_sigint sigint w (?d # map (beat_dict w) bs)
        (?t @ script r w bs) (3 + accepted ?g (?n + 3) (3 * length bs))"
      unfolding w1_def by (rule after_sends_sigint_shift) simp
    finally show ?thesis
      using True by (simp only: split script_Cons list.map if_True simp_thms)
  next
    case False
    with le have lt: "?a < 3" by simp
    have "for_beats_sigint sigint link r (b # bs) w = after_sends_sigint sigint w [?d] ?t ?a"
      using False
      by (simp add: outproc_body_sigint_eq and_then_def after_sends_sigint_def Let_def)
    also have "\<dots> = after_sends_sigint sigint w (?d # map (beat_dict w) bs)
        (?t @ script r w bs) ?a"
      using lt by (simp add: after_sends_sigint_short)
    finally show ?thesis
      using False by (simp only: split script_Cons list.map if_False simp_thms)
  qed
qed

lemma outproc_sigint_eq:
  "outproc_sigint sigint link r bs w =
     after_sends_sigint sigint w (map (beat_dict w) bs) (script r w bs)
       (accepted (goes_through sigint link) (length (calls w)) (3 * length bs))"
  by (cases bs)
     (simp_all add: outproc_sigint_def for_beats_sigint_eq after_sends_sigint_def Let_def script_def)

lemma for_beats_no_signal:
  "for_beats_sigint no_signal link r bs w = for_beats link r bs w"
proof (induction bs arbitrary: w)
  case Nil
  show ?case by simp
next
  case (Cons b bs)
  have send: "send_message_sigint no_signal link = send_message link"
    by (intro ext) (simp add: send_message_sigint_def no_signal_def)
  have body: "outproc_body_sigint no_signal link r b w = outproc_body link r b w"
    by (simp only: outproc_body_sigint_def outproc_body_def send)
  have fn: "for_beats_sigint no_signal link r bs = for_beats link r bs"
    by (rule ext) (rule Cons.IH)
  show ?case by (simp only: for_beats_sigint.simps for_beats.simps body fn)
qed

lemma outproc_no_signal:
  "outproc_sigint no_signal link r bs w = outproc link r bs w"
  by (simp add: outproc_sigint_def outproc_def for_beats_no_signal)

lemma accepted_until_sigint_at:
  "k < m \<Longrightarrow> accepted (goes_through (sigint_at k) always_up) 0 m = k"
proof (rule accepted_first_failure)
  show "accepts (goes_through (sigint_at k) always_up) 0 k"
    by (simp add: accepts_iff goes_through_def sigint_at_def always_up_def)
  show "\<not> goes_through (sigint_at k) always_up (0 + k)"
    by (simp add: goes_through_def sigint_at_def)
qed

section \<open>A run in closed form\<close>

lemma script_beat_processor:
  "script r (beat_processor c w) (beats_of c) = chunk_messages r c"
  by (simp add: script_def chunk_messages_def beat_dict_def beat_processor_def)

lemma beat_processor_logs [simp]:
  "calls (beat_processor c w) = calls w"
  "wire (beat_processor c w) = wire w"
  "stdout (beat_processor c w) = stdout w"
  by (simp_all add: beat_processor_def)

lemma is_Returned_iff: "is_Returned x = (x = Returned (world_of x))"
  by (cases x) simp_all

lemma length_chunk_messages: "length (chunk_messages r c) = 3 * length (beats_of c)"
  using length_script [of r "beat_processor c w" "beats_of c"]
  by (simp only: script_beat_processor)

lemma length_expected_messages: "length (expected_messages r cs) = 3 * beat_count cs"
  by (induction cs)
     (simp_all add: expected_messages_def beat_count_def length_chunk_messages)

lemma relay_trace:
  "wire (world_of (relay link r cs w)) =
     wire w @ take (accepted link (length (calls w)) (length (expected_messages r cs)))
       (expected_messages r cs) \<and>
   calls (world_of (relay link r cs w)) =
     calls w @ take (Suc (accepted link (length (calls w)) (length (expected_messages r cs))))
       (expected_messages r cs) \<and>
   is_Returned (relay link r cs w) =
     (accepted link (length (calls w)) (length (expected_messages r cs)) =
      length (expected_messages r cs))"
proof (induction cs arbitrary: w)
  case Nil
  show ?case by (simp add: expected_messages_def)
next
  case (Cons c cs)
  let ?n = "length (calls w)"
  let ?E1 = "chunk_messages r c"
  let ?E = "expected_messages r cs"
  let ?a1 = "accepted link ?n (length ?E1)"
  let ?R1 = "out_processor link r c w"
  have len1: "length ?E1 = 3 * length (beats_of c)"
    using length_script [of r "beat_processor c w" "beats_of c"]
    by (simp only: script_beat_processor)
  have R1: "?R1 = after_sends (beat_processor c w) (map (beat_dict (beat_processor c w)) (beats_of c))
      ?E1 ?a1"
    by (simp add: out_processor_def outproc_eq script_beat_processor len1)
  have w1: "wire (world_of ?R1) = wire w @ take ?a1 ?E1"
    by (simp add: R1 after_sends_wire)
  have c1: "calls (world_of ?R1) = calls w @ take (Suc ?a1) ?E1"
    by (simp add: R1 after_sends_calls)
  have r1: "is_Returned ?R1 = (?a1 = length ?E1)"
    by (simp add: R1 after_sends_Returned)
  have split: "accepted link ?n (length ?E1 + length ?E) =
      (if ?a1 = length ?E1 then length ?E1 + accepted link (?n + length ?E1) (length ?E) else ?a1)"
    by (rule accepted_add)
  have app: "expected_messages r (c # cs) = ?E1 @ ?E"
    by (simp add: expected_messages_def)
  have le: "?a1 \<le> length ?E1" by (rule accepted_le)
  show ?case
  proof (cases "?a1 = length ?E1")
    case True
    then obtain w1 where ret: "?R1 = Returned w1"
      using r1 is_Returned_iff by metis
    have ww: "wire w1 = wire w @ ?E1" using w1 True by (simp add: ret)
    have cc: "calls w1 = calls w @ ?E1" using c1 True by (simp add: ret)
    have step: "relay link r (c # cs) w = relay link r cs w1"
      by (simp add: ret and_then_def)
    show ?thesis
      using True Cons.IH [of w1]
      by (simp add: step app split ww cc del: relay.simps)
  next
    case False
    then obtain e w1 where rai: "?R1 = Raised e w1"
      using r1 by (cases ?R1) simp_all
    have lt: "?a1 < length ?E1" using False le by simp
    have step: "relay link r (c # cs) w = Raised e w1"
      by (simp add: rai and_then_def)
    show ?thesis
      using False lt w1 c1
      by (simp add: step split app rai del: relay.simps)
  qed
qed

lemma run_wire_eq:
  "run_wire link r cs t c =
     take (accepted link 0 (length (expected_messages r cs))) (expected_messages r cs)"
  using relay_trace [of link r cs "initial_world t c"]
  by (simp add: run_wire_def initial_world_def)

lemma run_returned:
  "is_Returned (relay link r cs (initial_world t c)) =
     (accepted link 0 (length (expected_messages r cs)) = length (expected_messages r cs))"
  using relay_trace [of link r cs "initial_world t c"]
  by (simp add: initial_world_def)

section \<open>Pulse trains\<close>

lemma pulse_train_add2:
  "pulse_train (Suc (Suc k)) = OscInt 255 # OscInt 0 # pulse_train k"
proof (induction k)
  case 0
  show ?case by simp
next
  case (Suc k)
  have "pulse_train (Suc (Suc (Suc k))) =
      pulse_train (Suc (Suc k)) @ [OscInt (if even (Suc (Suc k)) then 255 else 0)]"
    by (rule pulse_train.simps)
  also have "\<dots> = (OscInt 255 # OscInt 0 # pulse_train k) @ [OscInt (if even k then 255 else 0)]"
    by (simp only: Suc.IH even_Suc_Suc_iff)
  also have "\<dots> = OscInt 255 # OscInt 0 # pulse_train (Suc k)"
    by simp
  finally show ?case .
qed

lemma length_pulse_train: "length (pulse_train n) = n"
  by (induction n) simp_all

lemma count_pulse_train:
  "count_list (pulse_train (2 * q)) (OscInt 255) = q \<and>
   count_list (pulse_train (2 * q)) (OscInt 0) = q"
proof (induction q)
  case 0
  show ?case by simp
next
  case (Suc q)
  have "pulse_train (2 * Suc q) = OscInt 255 # OscInt 0 # pulse_train (2 * q)"
    by (simp only: mult_Suc_right numeral_2_eq_2 add_Suc add_0 pulse_train_add2)
  with Suc show ?case by simp
qed

lemma frame_append: "frame (xs @ ys) = frame xs @ frame ys"
  by (simp add: frame_def)

lemma length_frame: "length (frame ds) = 3 * length ds"
  by (induction ds) (simp_all add: frame_def)

lemma taps_take_frame:
  "a \<le> 3 * length ds \<Longrightarrow>
   tap_payloads (take a (frame ds)) = pulse_train (2 * (a div 3) + (a mod 3 - 1))"
proof (induction ds arbitrary: a)
  case Nil
  then show ?case by (simp add: frame_def tap_payloads_def)
next
  case (Cons d ds)
  have fr: "frame (d # ds) = (''/tempo/beat'', d) # (''/tempo/tap'', OscInt 255) #
      (''/tempo/tap'', OscInt 0) # frame ds"
    by (simp add: frame_def)
  consider (z) "a = 0" | (o) "a = 1" | (t) "a = 2" | (m) b where "a = Suc (Suc (Suc b))"
    by (metis One_nat_def Suc_1 not0_implies_Suc)
  then show ?case
  proof cases
    case z
    then show ?thesis by (simp add: tap_payloads_def)
  next
    case o
    then show ?thesis by (simp add: fr tap_payloads_def)
  next
    case t
    then show ?thesis by (simp add: fr tap_payloads_def numeral_2_eq_2)
  next
    case m
    have b: "b \<le> 3 * length ds" using Cons.prems m by simp
    have d3: "a div 3 = Suc (b div 3)" "a mod 3 = b mod 3"
      using m by (simp_all add: numeral_3_eq_3 [symmetric] Suc3_eq_add_3)
    have "tap_payloads (take a (frame (d # ds))) =
        OscInt 255 # OscInt 0 # tap_payloads (take b (frame ds))"
      by (simp add: fr m tap_payloads_def)
    also have "\<dots> = OscInt 255 # OscInt 0 # pulse_train (2 * (b div 3) + (b mod 3 - 1))"
      by (simp only: Cons.IH [OF b])
    also have "\<dots> = pulse_train (Suc (Suc (2 * (b div 3) + (b mod 3 - 1))))"
      by (simp only: pulse_train_add2)
    also have "\<dots> = pulse_train (2 * (a div 3) + (a mod 3 - 1))"
      by (simp add: d3)
    finally show ?thesis .
  qed
qed

lemma chunk_messages_frame:
  "chunk_messages r c = frame (map (\<lambda>beat. OscStr (json_dumps r
      [(''beat'', PyFloat beat), (''tempo'', new_tempo c), (''counter'', new_counter c)]))
      (beats_of c))"
  by (simp add: chunk_messages_def frame_def pulse_triple_def map_concat comp_def)

lemma expected_messages_frame: "\<exists>ds. expected_messages r cs = frame ds"
proof (induction cs)
  case Nil
  have "expected_messages r [] = frame []" by (simp add: expected_messages_def frame_def)
  then show ?case by blast
next
  case (Cons c cs)
  then obtain ds where ds: "expected_messages r cs = frame ds" by blast
  have "expected_messages r (c # cs) = chunk_messages r c @ expected_messages r cs"
    by (simp add: expected_messages_def)
  then have "expected_messages r (c # cs) = frame (map (\<lambda>beat. OscStr (json_dumps r
      [(''beat'', PyFloat beat), (''tempo'', new_tempo c), (''counter'', new_counter c)]))
      (beats_of c) @ ds)"
    by (simp only: chunk_messages_frame ds frame_append)
  then show ?case by blast
qed

lemma taps_prefix_expected:
  assumes "a \<le> length (expected_messages r cs)"
  shows "tap_payloads (take a (expected_messages r cs)) =
     pulse_train (2 * (a div 3) + (a mod 3 - 1))"
proof -
  obtain ds where ds: "expected_messages r cs = frame ds"
    using expected_messages_frame by blast
  have "a \<le> 3 * length ds" using assms by (simp add: ds length_frame)
  then show ?thesis by (simp only: ds taps_take_frame)
qed

section \<open>The program on the concrete inputs\<close>

lemma json_scenario:
  "json_dumps repr_example [(''beat'', PyFloat Float_1_2), (''tempo'', PyFloat Float_120_0), (''counter'', PyInt 4)]
   = ''{\"beat\": 1.2, \"tempo\": 120.0, \"counter\": 4}''"
  by (simp add: json_dumps_def quote_def str_int_def str_nat.simps
      digit_char_def)

lemma json_scenario_2:
  "json_dumps repr_example [(''beat'', PyFloat Float_1_7), (''tempo'', PyFloat Float_120_0), (''counter'', PyInt 4)]
   = ''{\"beat\": 1.7, \"tempo\": 120.0, \"counter\": 4}''"
  by (simp add: json_dumps_def quote_def str_int_def str_nat.simps digit_char_def)

lemma script_scenario:
  "script repr_example scenario_world [Float_1_2, Float_1_7] =
     [(''/tempo/beat'', OscStr ''{\"beat\": 1.2, \"tempo\": 120.0, \"counter\": 4}''),
      (''/tempo/tap'', OscInt 255), (''/tempo/tap'', OscInt 0),
      (''/tempo/beat'', OscStr ''{\"beat\": 1.7, \"tempo\": 120.0, \"counter\": 4}''),
      (''/tempo/tap'', OscInt 255), (''/tempo/tap'', OscInt 0)]"
  by (simp add: script_def pulse_triple_def beat_dict_def scenario_world_def
      json_scenario json_scenario_2)

lemma scenario_first_call:
  "outproc always_up repr_example [Float_1_2] scenario_world = Returned after_first_beat"
  by (simp add: outproc_eq accepted_always_up after_sends_def script_def pulse_triple_def
      beat_dict_def scenario_world_def after_first_beat_def json_scenario
      del: accepted.simps)

lemma expected_three_chunks:
  "expected_messages repr_example three_chunks =
     [(''/tempo/beat'', OscStr ''{\"beat\": 1.2, \"tempo\": 120.0, \"counter\": 100}''),
      (''/tempo/tap'', OscInt 255), (''/tempo/tap'', OscInt 0),
      (''/tempo/beat'', OscStr ''{\"beat\": 1.7, \"tempo\": 120.0, \"counter\": 300}''),
      (''/tempo/tap'', OscInt 255), (''/tempo/tap'', OscInt 0)]"
  by (simp add: expected_messages_def three_chunks_def chunk_messages_def pulse_triple_def
      json_dumps_def quote_def str_int_def str_nat.simps digit_char_def)

lemma run_wire_three_chunks:
  "run_wire always_up repr_example three_chunks t c =
     [(''/tempo/beat'', OscStr ''{\"beat\": 1.2, \"tempo\": 120.0, \"counter\": 100}''),
      (''/tempo/tap'', OscInt 255), (''/tempo/tap'', OscInt 0),
      (''/tempo/beat'', OscStr ''{\"beat\": 1.7, \"tempo\": 120.0, \"counter\": 300}''),
      (''/tempo/tap'', OscInt 255), (''/tempo/tap'', OscInt 0)]"
  by (simp only: run_wire_eq accepted_always_up take_all order_refl expected_three_chunks)

section \<open>Every beat, three messages\<close>

text \<open>
  C1. For a chunk of any number of beats, whatever the timestamps and whatever the
  tempo and counter of the beat processor, the messages \<^verbatim>\<open>outproc\<close> adds to the wire
  are as many as the socket accepted before its first refusal, and every beat whose
  three calls were accepted has, at its place in the chunk, exactly its three messages
  in this order: the data message on \<^verbatim>\<open>/tempo/beat\<close>, whose payload is the JSON text of
  the dictionary with the timestamp, the tempo and the counter; then 255 on
  \<^verbatim>\<open>/tempo/tap\<close>; then 0 on \<^verbatim>\<open>/tempo/tap\<close>. When the socket accepts every call of the
  chunk, \<^verbatim>\<open>outproc\<close> returns and the messages added are three times the beats: every
  beat of the chunk has its triple and there is nothing else.
\<close>

theorem outproc_three_per_beat:
  "length (emitted w (outproc link float_repr beats w)) =
     accepted link (length (calls w)) (3 * length beats) \<and>
   (\<forall>i < length beats.
      3 * i + 3 \<le> accepted link (length (calls w)) (3 * length beats) \<longrightarrow>
      take 3 (drop (3 * i) (emitted w (outproc link float_repr beats w))) =
        [(''/tempo/beat'', OscStr (json_dumps float_repr
            [(''beat'', PyFloat (beats ! i)), (''tempo'', tempo w), (''counter'', counter w)])),
         (''/tempo/tap'', OscInt 255),
         (''/tempo/tap'', OscInt 0)]) \<and>
   (accepts link (length (calls w)) (3 * length beats) \<longrightarrow>
      is_Returned (outproc link float_repr beats w) \<and>
      length (emitted w (outproc link float_repr beats w)) = 3 * length beats)"
proof -
  let ?a = "accepted link (length (calls w)) (3 * length beats)"
  let ?S = "script float_repr w beats"
  have le: "?a \<le> 3 * length beats" by (rule accepted_le)
  have em: "emitted w (outproc link float_repr beats w) = take ?a ?S"
    by (simp add: outproc_eq emitted_after_sends)
  have len: "length (emitted w (outproc link float_repr beats w)) = ?a"
    using le by (simp add: em)
  have slice: "take 3 (drop (3 * i) (emitted w (outproc link float_repr beats w))) =
        [(''/tempo/beat'', OscStr (json_dumps float_repr
            [(''beat'', PyFloat (beats ! i)), (''tempo'', tempo w), (''counter'', counter w)])),
         (''/tempo/tap'', OscInt 255),
         (''/tempo/tap'', OscInt 0)]"
    if "i < length beats" and "3 * i + 3 \<le> ?a" for i
  proof -
    have "take 3 (drop (3 * i) (take ?a ?S)) = take 3 (drop (3 * i) ?S)"
      using that(2) by (rule take_drop_take)
    also have "\<dots> = pulse_triple float_repr (beat_dict w (beats ! i))"
      using that(1) by (rule script_slice)
    finally show ?thesis
      by (simp add: em pulse_triple_def beat_dict_def)
  qed
  have full: "is_Returned (outproc link float_repr beats w) \<and>
      length (emitted w (outproc link float_repr beats w)) = 3 * length beats"
    if "accepts link (length (calls w)) (3 * length beats)"
  proof -
    have "?a = 3 * length beats" using that by (rule accepts_accepted)
    then show ?thesis
      using len by (simp add: outproc_eq after_sends_Returned)
  qed
  show ?thesis using len slice full by blast
qed

text \<open>
  Two beats in one chunk, the first one the scenario of the specification: the beat at
  1.20 with tempo 120.0 and counter 4 puts
  \<^verbatim>\<open>{"beat": 1.2, "tempo": 120.0, "counter": 4}\<close> on \<^verbatim>\<open>/tempo/beat\<close>, then 255 and 0
  on \<^verbatim>\<open>/tempo/tap\<close>; the beat at 1.7 follows with its own three messages. The last
  conjunct is the scenario alone, as a chunk of one beat.
\<close>

theorem outproc_scenario:
  "accepts always_up (length (calls scenario_world)) (3 * length [Float_1_2, Float_1_7]) \<and>
   is_Returned (outproc always_up repr_example [Float_1_2, Float_1_7] scenario_world) \<and>
   length (emitted scenario_world
     (outproc always_up repr_example [Float_1_2, Float_1_7] scenario_world)) = 6 \<and>
   take 3 (drop (3 * 0) (emitted scenario_world
     (outproc always_up repr_example [Float_1_2, Float_1_7] scenario_world))) =
     [(''/tempo/beat'', OscStr ''{\"beat\": 1.2, \"tempo\": 120.0, \"counter\": 4}''),
      (''/tempo/tap'', OscInt 255), (''/tempo/tap'', OscInt 0)] \<and>
   take 3 (drop (3 * 1) (emitted scenario_world
     (outproc always_up repr_example [Float_1_2, Float_1_7] scenario_world))) =
     [(''/tempo/beat'', OscStr ''{\"beat\": 1.7, \"tempo\": 120.0, \"counter\": 4}''),
      (''/tempo/tap'', OscInt 255), (''/tempo/tap'', OscInt 0)] \<and>
   outproc always_up repr_example [Float_1_2] scenario_world =
     Returned \<lparr>tempo = PyFloat Float_120_0, counter = PyInt 4,
       stdout = [[(''beat'', PyFloat Float_1_2), (''tempo'', PyFloat Float_120_0),
                  (''counter'', PyInt 4)]],
       calls = [(''/tempo/beat'', OscStr ''{\"beat\": 1.2, \"tempo\": 120.0, \"counter\": 4}''),
                (''/tempo/tap'', OscInt 255), (''/tempo/tap'', OscInt 0)],
       wire = [(''/tempo/beat'', OscStr ''{\"beat\": 1.2, \"tempo\": 120.0, \"counter\": 4}''),
               (''/tempo/tap'', OscInt 255), (''/tempo/tap'', OscInt 0)]\<rparr>"
proof -
  let ?bs = "[Float_1_2, Float_1_7]"
  let ?R = "outproc always_up repr_example ?bs scenario_world"
  note inst = outproc_three_per_beat [of scenario_world always_up repr_example ?bs]
  have up: "accepts always_up (length (calls scenario_world)) (3 * length ?bs)"
    by (rule accepts_always_up)
  have a: "accepted always_up (length (calls scenario_world)) (3 * length ?bs) = 6"
    by (simp add: accepted_always_up del: accepted.simps)
  have ret: "is_Returned ?R" and len: "length (emitted scenario_world ?R) = 6"
    using inst up by simp_all
  have t: "tempo scenario_world = PyFloat Float_120_0" "counter scenario_world = PyInt 4"
    by (simp_all add: scenario_world_def)
  have s0: "take 3 (drop (3 * 0) (emitted scenario_world ?R)) =
     [(''/tempo/beat'', OscStr ''{\"beat\": 1.2, \"tempo\": 120.0, \"counter\": 4}''),
      (''/tempo/tap'', OscInt 255), (''/tempo/tap'', OscInt 0)]"
    using inst [THEN conjunct2, THEN conjunct1, THEN spec, of 0] a
    by (simp add: t json_scenario del: accepted.simps)
  have s1: "take 3 (drop (3 * 1) (emitted scenario_world ?R)) =
     [(''/tempo/beat'', OscStr ''{\"beat\": 1.7, \"tempo\": 120.0, \"counter\": 4}''),
      (''/tempo/tap'', OscInt 255), (''/tempo/tap'', OscInt 0)]"
    using inst [THEN conjunct2, THEN conjunct1, THEN spec, of 1] a
    by (simp add: t json_scenario_2 del: accepted.simps)
  have one: "outproc always_up repr_example [Float_1_2] scenario_world =
     Returned \<lparr>tempo = PyFloat Float_120_0, counter = PyInt 4,
       stdout = [[(''beat'', PyFloat Float_1_2), (''tempo'', PyFloat Float_120_0),
                  (''counter'', PyInt 4)]],
       calls = [(''/tempo/beat'', OscStr ''{\"beat\": 1.2, \"tempo\": 120.0, \"counter\": 4}''),
                (''/tempo/tap'', OscInt 255), (''/tempo/tap'', OscInt 0)],
       wire = [(''/tempo/beat'', OscStr ''{\"beat\": 1.2, \"tempo\": 120.0, \"counter\": 4}''),
               (''/tempo/tap'', OscInt 255), (''/tempo/tap'', OscInt 0)]\<rparr>"
    by (simp add: scenario_first_call after_first_beat_def)
  show ?thesis using up ret len s0 s1 one by blast
qed

section \<open>Order across beats and chunks\<close>

text \<open>
  C2. Over a run, the messages added to the wire are an initial segment of the
  triples of the beats, chunk after chunk and beat after beat in the order in which
  the decoder delivered them: as many messages as the socket accepted before its first
  refusal, and all of them when it accepts every call, in which case the run returns.
  No message of a later beat comes before a message of an earlier one, and the triples
  are not interleaved. The statement holds for every order of delivery, in particular
  for beats delivered with non-decreasing timestamps.
\<close>

theorem relay_preserves_order:
  "emitted w (relay link float_repr cs w) =
     take (accepted link (length (calls w)) (length (expected_messages float_repr cs)))
       (expected_messages float_repr cs) \<and>
   (accepts link (length (calls w)) (length (expected_messages float_repr cs)) \<longrightarrow>
      is_Returned (relay link float_repr cs w) \<and>
      emitted w (relay link float_repr cs w) = expected_messages float_repr cs)"
  using relay_trace [of link float_repr cs w]
  by (simp add: emitted_def accepts_def)

text \<open>Three chunks, the second one without a beat, over a network that accepts everything.\<close>

theorem relay_three_chunks:
  "accepts always_up (length (calls scenario_world))
     (length (expected_messages repr_example three_chunks)) \<and>
   is_Returned (relay always_up repr_example three_chunks scenario_world) \<and>
   emitted scenario_world (relay always_up repr_example three_chunks scenario_world) =
     [(''/tempo/beat'', OscStr ''{\"beat\": 1.2, \"tempo\": 120.0, \"counter\": 100}''),
      (''/tempo/tap'', OscInt 255), (''/tempo/tap'', OscInt 0),
      (''/tempo/beat'', OscStr ''{\"beat\": 1.7, \"tempo\": 120.0, \"counter\": 300}''),
      (''/tempo/tap'', OscInt 255), (''/tempo/tap'', OscInt 0)]"
proof -
  have up: "accepts always_up (length (calls scenario_world))
      (length (expected_messages repr_example three_chunks))"
    by (rule accepts_always_up)
  have "is_Returned (relay always_up repr_example three_chunks scenario_world) \<and>
      emitted scenario_world (relay always_up repr_example three_chunks scenario_world) =
        expected_messages repr_example three_chunks"
    using relay_preserves_order [of scenario_world always_up repr_example three_chunks] up
    by blast
  then show ?thesis
    using up by (simp add: expected_three_chunks)
qed

section \<open>An empty chunk\<close>

text \<open>
  C3. For a chunk whose beat list is empty, \<^verbatim>\<open>outproc\<close> returns normally and leaves
  the world as it was: no \<^verbatim>\<open>send_message\<close> call is made, nothing reaches the wire on
  any address and nothing is printed, whatever the state of the network.
\<close>

theorem outproc_empty_chunk:
  "outproc link float_repr [] w = Returned w"
  by (simp add: outproc_def)

section \<open>The same beat twice\<close>



section \<open>A send that fails\<close>

text \<open>
  The specification says that a failed send does not stop the relay loop. The program
  does otherwise: over a network that refuses the first call only, \<^verbatim>\<open>outproc\<close> on two
  beats raises at that call, nothing is on the wire, and the five later messages, which
  the network would have accepted, are never attempted.
\<close>

theorem send_failure_halts_outproc:
  "\<not> is_Returned (outproc first_call_fails repr_example [Float_1_2, Float_1_7] scenario_world) \<and>
   wire (world_of (outproc first_call_fails repr_example [Float_1_2, Float_1_7] scenario_world)) = [] \<and>
   calls (world_of (outproc first_call_fails repr_example [Float_1_2, Float_1_7] scenario_world)) =
     [(''/tempo/beat'', OscStr ''{\"beat\": 1.2, \"tempo\": 120.0, \"counter\": 4}'')] \<and>
   accepts first_call_fails 1 5"
proof -
  have a: "accepted first_call_fails 0 m = 0" for m
    by (rule accepted_fail_now) (simp add: first_call_fails_def)
  have up: "accepts first_call_fails 1 5"
    by (simp add: accepts_iff first_call_fails_def)
  have w0: "wire scenario_world = []" "calls scenario_world = []"
    by (simp_all add: scenario_world_def)
  show ?thesis
    using up
    by (simp add: outproc_eq a after_sends_Returned after_sends_wire after_sends_calls
        script_scenario w0 del: accepted.simps)
qed

text \<open>
  C5, as the program has it. When the socket accepts the first \<open>k\<close> calls of a chunk
  and refuses the next one, \<^verbatim>\<open>outproc\<close> raises the \<^verbatim>\<open>OSError\<close>: the \<open>k\<close> messages
  accepted are on the wire in order, the refused message was attempted once and is not
  retried, and no later message of that beat or of a later beat of the chunk is
  attempted.
\<close>

theorem outproc_send_failure:
  assumes "k < 3 * length beats"
    and "accepts link (length (calls w)) k"
    and "\<not> link (length (calls w) + k)"
  shows "outproc link float_repr beats w =
     Raised OSError
       (w\<lparr>stdout := stdout w @ take (Suc (k div 3)) (map (beat_dict w) beats),
          calls := calls w @ take (Suc k) (script float_repr w beats),
          wire := wire w @ take k (script float_repr w beats)\<rparr>)"
proof -
  have "accepted link (length (calls w)) (3 * length beats) = k"
    using assms by (rule accepted_first_failure)
  then show ?thesis
    using assms(1) by (simp add: outproc_eq after_sends_def)
qed

text \<open>
  Two beats over a network that refuses the fifth call: the first triple and the data
  message of the second beat are on the wire, its 255 was refused, its 0 was never
  attempted.
\<close>

theorem outproc_fifth_send_fails:
  "4 < 3 * length [Float_1_2, Float_1_7] \<and>
   accepts fifth_call_fails (length (calls scenario_world)) 4 \<and>
   \<not> fifth_call_fails (length (calls scenario_world) + 4) \<and>
   outproc fifth_call_fails repr_example [Float_1_2, Float_1_7] scenario_world =
     Raised OSError
      \<lparr>tempo = PyFloat Float_120_0, counter = PyInt 4,
       stdout = [[(''beat'', PyFloat Float_1_2), (''tempo'', PyFloat Float_120_0),
                  (''counter'', PyInt 4)],
                 [(''beat'', PyFloat Float_1_7), (''tempo'', PyFloat Float_120_0),
                  (''counter'', PyInt 4)]],
       calls = [(''/tempo/beat'', OscStr ''{\"beat\": 1.2, \"tempo\": 120.0, \"counter\": 4}''),
                (''/tempo/tap'', OscInt 255), (''/tempo/tap'', OscInt 0),
                (''/tempo/beat'', OscStr ''{\"beat\": 1.7, \"tempo\": 120.0, \"counter\": 4}''),
                (''/tempo/tap'', OscInt 255)],
       wire = [(''/tempo/beat'', OscStr ''{\"beat\": 1.2, \"tempo\": 120.0, \"counter\": 4}''),
               (''/tempo/tap'', OscInt 255), (''/tempo/tap'', OscInt 0),
               (''/tempo/beat'', OscStr ''{\"beat\": 1.7, \"tempo\": 120.0, \"counter\": 4}'')]\<rparr>"
proof -
  have k: "4 < 3 * length [Float_1_2, Float_1_7]" by simp
  have up: "accepts fifth_call_fails (length (calls scenario_world)) 4"
    by (simp add: accepts_iff fifth_call_fails_def scenario_world_def)
  have dn: "\<not> fifth_call_fails (length (calls scenario_world) + 4)"
    by (simp add: fifth_call_fails_def scenario_world_def)
  have d4: "(4::nat) div 3 = 1" by simp
  have res: "outproc fifth_call_fails repr_example [Float_1_2, Float_1_7] scenario_world =
     Raised OSError
       (scenario_world\<lparr>stdout := stdout scenario_world @
            take (Suc (4 div 3)) (map (beat_dict scenario_world) [Float_1_2, Float_1_7]),
          calls := calls scenario_world @
            take (Suc 4) (script repr_example scenario_world [Float_1_2, Float_1_7]),
          wire := wire scenario_world @
            take 4 (script repr_example scenario_world [Float_1_2, Float_1_7])\<rparr>)"
    by (rule outproc_send_failure [OF k up dn])
  show ?thesis
    using k up dn
    by (simp add: res script_scenario d4) (simp add: scenario_world_def beat_dict_def)
qed

section \<open>Cancellation in the middle of a beat\<close>

text \<open>
  The specification says that a cancellation never splits the three messages of a
  beat. The program does nothing to that end: when the signal is taken after the second
  call of a beat, the data message and the 255 are on the wire and the 0 is missing.
\<close>

theorem sigint_splits_triple:
  "outproc_sigint (sigint_at 2) always_up repr_example [Float_1_2] scenario_world =
     Raised KeyboardInterrupt
      \<lparr>tempo = PyFloat Float_120_0, counter = PyInt 4,
       stdout = [[(''beat'', PyFloat Float_1_2), (''tempo'', PyFloat Float_120_0),
                  (''counter'', PyInt 4)]],
       calls = [(''/tempo/beat'', OscStr ''{\"beat\": 1.2, \"tempo\": 120.0, \"counter\": 4}''),
                (''/tempo/tap'', OscInt 255)],
       wire = [(''/tempo/beat'', OscStr ''{\"beat\": 1.2, \"tempo\": 120.0, \"counter\": 4}''),
               (''/tempo/tap'', OscInt 255)]\<rparr>"
proof -
  have a: "accepted (goes_through (sigint_at 2) always_up) 0 3 = 2"
    by (rule accepted_until_sigint_at) simp
  have c: "calls scenario_world = []" by (simp add: scenario_world_def)
  have "outproc_sigint (sigint_at 2) always_up repr_example [Float_1_2] scenario_world =
      after_sends_sigint (sigint_at 2) scenario_world
        [beat_dict scenario_world Float_1_2]
        (script repr_example scenario_world [Float_1_2]) 2"
    by (simp add: outproc_sigint_eq c a del: accepted.simps)
  also have "\<dots> = Raised KeyboardInterrupt
      \<lparr>tempo = PyFloat Float_120_0, counter = PyInt 4,
       stdout = [[(''beat'', PyFloat Float_1_2), (''tempo'', PyFloat Float_120_0),
                  (''counter'', PyInt 4)]],
       calls = [(''/tempo/beat'', OscStr ''{\"beat\": 1.2, \"tempo\": 120.0, \"counter\": 4}''),
                (''/tempo/tap'', OscInt 255)],
       wire = [(''/tempo/beat'', OscStr ''{\"beat\": 1.2, \"tempo\": 120.0, \"counter\": 4}''),
               (''/tempo/tap'', OscInt 255)]\<rparr>"
    by (simp add: after_sends_sigint_def Let_def c sigint_at_def script_def pulse_triple_def)
       (simp add: scenario_world_def beat_dict_def json_scenario)
  finally show ?thesis .
qed

text \<open>
  C6, as the program has it. When the first \<open>k\<close> calls of a chunk go through and the
  signal is taken before the next one, \<^verbatim>\<open>outproc\<close> raises \<^verbatim>\<open>KeyboardInterrupt\<close> and
  the wire has gained exactly the first \<open>k\<close> messages of the chunk, in order: for every
  beat of the chunk, the first \<open>k - 3 i\<close> of its three messages, where \<open>i\<close> is its place
  in the chunk. So the beats before the signal have all three, the beats after it have
  none, and the beat in progress has as many as were sent: all or none exactly when
  \<open>k\<close> is a multiple of three, that is when the signal falls between two beats.
\<close>

theorem outproc_cancelled:
  assumes "k < 3 * length beats"
    and "accepts (goes_through sigint link) (length (calls w)) k"
    and "sigint (length (calls w) + k)"
  shows "outproc_sigint sigint link float_repr beats w =
     Raised KeyboardInterrupt
       (w\<lparr>stdout := stdout w @ take (Suc (k div 3)) (map (beat_dict w) beats),
          calls := calls w @ take k (script float_repr w beats),
          wire := wire w @ take k (script float_repr w beats)\<rparr>) \<and>
     length (emitted w (outproc_sigint sigint link float_repr beats w)) = k \<and>
     (\<forall>i < length beats.
        take 3 (drop (3 * i) (emitted w (outproc_sigint sigint link float_repr beats w))) =
        take (k - 3 * i)
          [(''/tempo/beat'', OscStr (json_dumps float_repr
              [(''beat'', PyFloat (beats ! i)), (''tempo'', tempo w), (''counter'', counter w)])),
           (''/tempo/tap'', OscInt 255),
           (''/tempo/tap'', OscInt 0)])"
proof -
  let ?S = "script float_repr w beats"
  have ng: "\<not> goes_through sigint link (length (calls w) + k)"
    using assms(3) by (simp add: goes_through_def)
  have a: "accepted (goes_through sigint link) (length (calls w)) (3 * length beats) = k"
    using assms(1,2) ng by (rule accepted_first_failure)
  have res: "outproc_sigint sigint link float_repr beats w =
     Raised KeyboardInterrupt
       (w\<lparr>stdout := stdout w @ take (Suc (k div 3)) (map (beat_dict w) beats),
          calls := calls w @ take k ?S,
          wire := wire w @ take k ?S\<rparr>)"
    using assms(1,3) by (simp add: outproc_sigint_eq a after_sends_sigint_def Let_def)
  have em: "emitted w (outproc_sigint sigint link float_repr beats w) = take k ?S"
    by (simp add: res emitted_def)
  have len: "length (emitted w (outproc_sigint sigint link float_repr beats w)) = k"
    using assms(1) by (simp add: em)
  have slice: "take 3 (drop (3 * i) (emitted w (outproc_sigint sigint link float_repr beats w))) =
        take (k - 3 * i)
          [(''/tempo/beat'', OscStr (json_dumps float_repr
              [(''beat'', PyFloat (beats ! i)), (''tempo'', tempo w), (''counter'', counter w)])),
           (''/tempo/tap'', OscInt 255),
           (''/tempo/tap'', OscInt 0)]"
    if i: "i < length beats" for i
  proof -
    have "take 3 (drop (3 * i) (take k ?S)) = take (k - 3 * i) (take 3 (drop (3 * i) ?S))"
      by (simp add: drop_take take_take min.commute)
    also have "\<dots> = take (k - 3 * i) (pulse_triple float_repr (beat_dict w (beats ! i)))"
      by (simp only: script_slice [OF i])
    finally show ?thesis
      by (simp add: em pulse_triple_def beat_dict_def)
  qed
  show ?thesis using res len slice by blast
qed

text \<open>
  A signal between the two beats of a chunk: the first beat has its three messages on
  the wire, the second has none.
\<close>

theorem sigint_between_beats:
  "3 < 3 * length [Float_1_2, Float_1_7] \<and>
   accepts (goes_through (sigint_at 3) always_up) (length (calls scenario_world)) 3 \<and>
   sigint_at 3 (length (calls scenario_world) + 3) \<and>
   outproc_sigint (sigint_at 3) always_up repr_example [Float_1_2, Float_1_7] scenario_world =
     Raised KeyboardInterrupt
      \<lparr>tempo = PyFloat Float_120_0, counter = PyInt 4,
       stdout = [[(''beat'', PyFloat Float_1_2), (''tempo'', PyFloat Float_120_0),
                  (''counter'', PyInt 4)],
                 [(''beat'', PyFloat Float_1_7), (''tempo'', PyFloat Float_120_0),
                  (''counter'', PyInt 4)]],
       calls = [(''/tempo/beat'', OscStr ''{\"beat\": 1.2, \"tempo\": 120.0, \"counter\": 4}''),
                (''/tempo/tap'', OscInt 255), (''/tempo/tap'', OscInt 0)],
       wire = [(''/tempo/beat'', OscStr ''{\"beat\": 1.2, \"tempo\": 120.0, \"counter\": 4}''),
               (''/tempo/tap'', OscInt 255), (''/tempo/tap'', OscInt 0)]\<rparr> \<and>
   length (emitted scenario_world
     (outproc_sigint (sigint_at 3) always_up repr_example [Float_1_2, Float_1_7]
        scenario_world)) = 3"
proof -
  have k: "3 < 3 * length [Float_1_2, Float_1_7]" by simp
  have up: "accepts (goes_through (sigint_at 3) always_up) (length (calls scenario_world)) 3"
    by (simp add: accepts_iff goes_through_def sigint_at_def always_up_def scenario_world_def)
  have sg: "sigint_at 3 (length (calls scenario_world) + 3)"
    by (simp add: sigint_at_def scenario_world_def)
  note inst = outproc_cancelled [OF k up sg, of repr_example]
  have d3: "(3::nat) div 3 = 1" by simp
  have res: "outproc_sigint (sigint_at 3) always_up repr_example [Float_1_2, Float_1_7]
      scenario_world =
     Raised KeyboardInterrupt
      \<lparr>tempo = PyFloat Float_120_0, counter = PyInt 4,
       stdout = [[(''beat'', PyFloat Float_1_2), (''tempo'', PyFloat Float_120_0),
                  (''counter'', PyInt 4)],
                 [(''beat'', PyFloat Float_1_7), (''tempo'', PyFloat Float_120_0),
                  (''counter'', PyInt 4)]],
       calls = [(''/tempo/beat'', OscStr ''{\"beat\": 1.2, \"tempo\": 120.0, \"counter\": 4}''),
                (''/tempo/tap'', OscInt 255), (''/tempo/tap'', OscInt 0)],
       wire = [(''/tempo/beat'', OscStr ''{\"beat\": 1.2, \"tempo\": 120.0, \"counter\": 4}''),
               (''/tempo/tap'', OscInt 255), (''/tempo/tap'', OscInt 0)]\<rparr>"
    by (simp add: inst [THEN conjunct1] script_scenario d3)
       (simp add: scenario_world_def beat_dict_def)
  have len: "length (emitted scenario_world
     (outproc_sigint (sigint_at 3) always_up repr_example [Float_1_2, Float_1_7]
        scenario_world)) = 3"
    by (rule inst [THEN conjunct2, THEN conjunct1])
  show ?thesis using k up sg res len by blast
qed

section \<open>The frame rate\<close>

text \<open>
  C7. Whatever \<^verbatim>\<open>parse_args\<close> returned, with or without a value for \<^verbatim>\<open>fps\<close>, the
  keyword arguments handed to both processors carry \<^verbatim>\<open>fps = 100\<close>.
\<close>

theorem main_fps_fixed:
  "in_processor_kwargs (main_wiring parsed) ''fps'' = Some (IntArg 100) \<and>
   beat_processor_kwargs (main_wiring parsed) ''fps'' = Some (IntArg 100)"
  by (simp add: main_wiring_def Let_def)

section \<open>Tempo and counter within a chunk\<close>

text \<open>
  C8. For a chunk of any number of beats (over a network that accepts its calls), the
  data messages of the chunk are, beat by beat, the JSON text of the timestamp together
  with the tempo and the counter the beat processor had when \<^verbatim>\<open>outproc\<close> was called:
  the same two values in every data message, only the field \<^verbatim>\<open>beat\<close> varies. The
  dictionaries printed are the same ones, and the call leaves tempo and counter as they
  were.
\<close>

theorem outproc_chunk_shares_tempo_counter:
  assumes "accepts link (length (calls w)) (3 * length beats)"
  shows "is_Returned (outproc link float_repr beats w) \<and>
     filter (\<lambda>m. fst m = ''/tempo/beat'') (emitted w (outproc link float_repr beats w)) =
       map (\<lambda>beat. (''/tempo/beat'', OscStr (json_dumps float_repr
              [(''beat'', PyFloat beat), (''tempo'', tempo w), (''counter'', counter w)]))) beats \<and>
     drop (length (stdout w)) (stdout (world_of (outproc link float_repr beats w))) =
       map (\<lambda>beat. [(''beat'', PyFloat beat), (''tempo'', tempo w), (''counter'', counter w)]) beats \<and>
     tempo (world_of (outproc link float_repr beats w)) = tempo w \<and>
     counter (world_of (outproc link float_repr beats w)) = counter w"
proof -
  have a: "accepted link (length (calls w)) (3 * length beats) = 3 * length beats"
    using assms by (rule accepts_accepted)
  have bd: "beat_dict w = (\<lambda>beat. [(''beat'', PyFloat beat), (''tempo'', tempo w), (''counter'', counter w)])"
    by (rule ext) (simp add: beat_dict_def)
  have dm: "data_message float_repr (tempo w) (counter w) = (\<lambda>beat. (''/tempo/beat'', OscStr (json_dumps float_repr
              [(''beat'', PyFloat beat), (''tempo'', tempo w), (''counter'', counter w)])))"
    by (rule ext) (simp add: data_message_def)
  show ?thesis
    by (simp add: outproc_eq a after_sends_Returned emitted_after_sends filter_data_script
        after_sends_stdout after_sends_tempo after_sends_counter bd [symmetric] dm [symmetric])
qed

text \<open>Two beats in one chunk: both data messages carry tempo 120.0 and counter 4.\<close>

theorem outproc_two_beats_one_tempo:
  "accepts always_up (length (calls scenario_world)) (3 * length [Float_1_2, Float_1_7]) \<and>
   is_Returned (outproc always_up repr_example [Float_1_2, Float_1_7] scenario_world) \<and>
   filter (\<lambda>m. fst m = ''/tempo/beat'')
     (emitted scenario_world
        (outproc always_up repr_example [Float_1_2, Float_1_7] scenario_world)) =
     [(''/tempo/beat'', OscStr ''{\"beat\": 1.2, \"tempo\": 120.0, \"counter\": 4}''),
      (''/tempo/beat'', OscStr ''{\"beat\": 1.7, \"tempo\": 120.0, \"counter\": 4}'')]"
proof -
  have up: "accepts always_up (length (calls scenario_world))
      (3 * length [Float_1_2, Float_1_7])"
    by (rule accepts_always_up)
  have t: "tempo scenario_world = PyFloat Float_120_0" "counter scenario_world = PyInt 4"
    by (simp_all add: scenario_world_def)
  show ?thesis
    using up outproc_chunk_shares_tempo_counter [OF up, of repr_example]
    by (simp add: t json_scenario json_scenario_2)
qed

section \<open>The payload of the data message\<close>

text \<open>
  C9. Every call of \<^verbatim>\<open>send_message\<close> on \<^verbatim>\<open>/tempo/beat\<close> made by \<^verbatim>\<open>outproc\<close>,
  accepted by the socket or not, passes one string argument: the \<^verbatim>\<open>json.dumps\<close> text of
  the dictionary of a beat of the chunk, whose keys are exactly \<^verbatim>\<open>beat\<close>, \<^verbatim>\<open>tempo\<close>
  and \<^verbatim>\<open>counter\<close>, in that order. The text is one JSON object with these three
  members.
\<close>

theorem data_payload_is_json_string:
  "(\<forall>m \<in> set (drop (length (calls w)) (calls (world_of (outproc link float_repr beats w)))).
      fst m = ''/tempo/beat'' \<longrightarrow>
      (\<exists>beat \<in> set beats. snd m = OscStr (json_dumps float_repr
          [(''beat'', PyFloat beat), (''tempo'', tempo w), (''counter'', counter w)]))) \<and>
   json_dumps float_repr [(''beat'', PyFloat b), (''tempo'', tempo w), (''counter'', counter w)] =
     ''{'' @ quote ''beat'' @ '': '' @ float_repr b @ '', '' @
       quote ''tempo'' @ '': '' @ dumps_val float_repr (tempo w) @ '', '' @
       quote ''counter'' @ '': '' @ dumps_val float_repr (counter w) @ ''}''"
proof (intro conjI ballI impI)
  fix m
  assume m: "m \<in> set (drop (length (calls w)) (calls (world_of (outproc link float_repr beats w))))"
    and a: "fst m = ''/tempo/beat''"
  have "m \<in> set (take (Suc (accepted link (length (calls w)) (3 * length beats)))
      (script float_repr w beats))"
    using m by (simp add: outproc_eq after_sends_calls)
  then have "m \<in> set (script float_repr w beats)"
    by (rule in_set_takeD)
  then obtain beat where "beat \<in> set beats"
    and "m = data_message float_repr (tempo w) (counter w) beat"
    using a data_in_script by blast
  then show "\<exists>beat \<in> set beats. snd m = OscStr (json_dumps float_repr
          [(''beat'', PyFloat beat), (''tempo'', tempo w), (''counter'', counter w)])"
    by (auto simp: data_message_def)
next
  show "json_dumps float_repr [(''beat'', PyFloat b), (''tempo'', tempo w), (''counter'', counter w)] =
     ''{'' @ quote ''beat'' @ '': '' @ float_repr b @ '', '' @
       quote ''tempo'' @ '': '' @ dumps_val float_repr (tempo w) @ '', '' @
       quote ''counter'' @ '': '' @ dumps_val float_repr (counter w) @ ''}''"
    by (rule json_dumps_three)
qed

text \<open>The data message of the scenario beat is among the calls, and it is that text.\<close>

theorem data_payload_scenario:
  "(''/tempo/beat'', OscStr ''{\"beat\": 1.2, \"tempo\": 120.0, \"counter\": 4}'')
     \<in> set (drop (length (calls scenario_world))
         (calls (world_of (outproc always_up repr_example [Float_1_2] scenario_world)))) \<and>
   (\<exists>beat \<in> set [Float_1_2].
      OscStr ''{\"beat\": 1.2, \"tempo\": 120.0, \"counter\": 4}'' =
      OscStr (json_dumps repr_example
        [(''beat'', PyFloat beat), (''tempo'', tempo scenario_world),
         (''counter'', counter scenario_world)])) \<and>
   json_dumps repr_example
     [(''beat'', PyFloat Float_1_2), (''tempo'', tempo scenario_world),
      (''counter'', counter scenario_world)] =
     ''{\"beat\": 1.2, \"tempo\": 120.0, \"counter\": 4}''"
proof -
  let ?m = "(''/tempo/beat'', OscStr ''{\"beat\": 1.2, \"tempo\": 120.0, \"counter\": 4}'')"
  have mem: "?m \<in> set (drop (length (calls scenario_world))
         (calls (world_of (outproc always_up repr_example [Float_1_2] scenario_world))))"
    by (simp add: outproc_eq after_sends_calls accepted_always_up script_def pulse_triple_def
        beat_dict_def scenario_world_def json_scenario del: accepted.simps)
  have all: "\<forall>m \<in> set (drop (length (calls scenario_world))
         (calls (world_of (outproc always_up repr_example [Float_1_2] scenario_world)))).
      fst m = ''/tempo/beat'' \<longrightarrow>
      (\<exists>beat \<in> set [Float_1_2]. snd m = OscStr (json_dumps repr_example
          [(''beat'', PyFloat beat), (''tempo'', tempo scenario_world),
           (''counter'', counter scenario_world)]))"
    using data_payload_is_json_string [of scenario_world always_up repr_example "[Float_1_2]"]
    by (rule conjunct1)
  have ex: "\<exists>beat \<in> set [Float_1_2]. snd ?m = OscStr (json_dumps repr_example
          [(''beat'', PyFloat beat), (''tempo'', tempo scenario_world),
           (''counter'', counter scenario_world)])"
    using bspec [OF all mem] by simp
  have js: "json_dumps repr_example
     [(''beat'', PyFloat Float_1_2), (''tempo'', tempo scenario_world),
      (''counter'', counter scenario_world)] =
     ''{\"beat\": 1.2, \"tempo\": 120.0, \"counter\": 4}''"
    by (simp add: scenario_world_def json_scenario)
  show ?thesis using mem ex js by simp
qed

section \<open>The tap channel\<close>

text \<open>
  C10. At the end of any run of the pipeline from a fresh client, over any network,
  the payloads on \<^verbatim>\<open>/tempo/tap\<close> are the alternation 255, 0, 255, 0, ... of their own
  length: it begins with 255 and holds nothing but 255 and 0. Whenever the wire holds
  whole triples only, there are as many 255 as 0, one of each per beat on the wire;
  when the run returns, there is one pair per beat of the run. Since the network may
  refuse any call, the states covered are all the states the wire goes through.
\<close>

theorem tap_channel_alternates:
  "tap_payloads (run_wire link float_repr cs t c) =
     pulse_train (length (tap_payloads (run_wire link float_repr cs t c))) \<and>
   (length (run_wire link float_repr cs t c) mod 3 = 0 \<longrightarrow>
      count_list (tap_payloads (run_wire link float_repr cs t c)) (OscInt 255) =
        length (run_wire link float_repr cs t c) div 3 \<and>
      count_list (tap_payloads (run_wire link float_repr cs t c)) (OscInt 0) =
        length (run_wire link float_repr cs t c) div 3) \<and>
   (is_Returned (relay link float_repr cs (initial_world t c)) \<longrightarrow>
      tap_payloads (run_wire link float_repr cs t c) = pulse_train (2 * beat_count cs))"
proof -
  let ?E = "expected_messages float_repr cs"
  let ?a = "accepted link 0 (length ?E)"
  let ?W = "run_wire link float_repr cs t c"
  have le: "?a \<le> length ?E" by (rule accepted_le)
  have W: "?W = take ?a ?E" by (rule run_wire_eq)
  have len: "length ?W = ?a" using le by (simp add: W)
  have taps: "tap_payloads ?W = pulse_train (2 * (?a div 3) + (?a mod 3 - 1))"
    using le by (simp only: W taps_prefix_expected)
  have one: "tap_payloads ?W = pulse_train (length (tap_payloads ?W))"
    by (simp add: taps length_pulse_train)
  have two: "count_list (tap_payloads ?W) (OscInt 255) = length ?W div 3 \<and>
      count_list (tap_payloads ?W) (OscInt 0) = length ?W div 3"
    if "length ?W mod 3 = 0"
  proof -
    have "tap_payloads ?W = pulse_train (2 * (?a div 3))"
      using that by (simp add: taps len)
    then show ?thesis by (simp add: count_pulse_train len)
  qed
  have three: "tap_payloads ?W = pulse_train (2 * beat_count cs)"
    if "is_Returned (relay link float_repr cs (initial_world t c))"
  proof -
    have "?a = 3 * beat_count cs"
      using that by (simp add: run_returned length_expected_messages)
    then show ?thesis by (simp add: taps)
  qed
  show ?thesis using one two three by blast
qed

text \<open>Three chunks with two beats in all: 255, 0, 255, 0.\<close>

theorem tap_channel_three_chunks:
  "length (run_wire always_up repr_example three_chunks (PyInt 0) (PyInt 0)) mod 3 = 0 \<and>
   is_Returned (relay always_up repr_example three_chunks (initial_world (PyInt 0) (PyInt 0))) \<and>
   tap_payloads (run_wire always_up repr_example three_chunks (PyInt 0) (PyInt 0)) =
     [OscInt 255, OscInt 0, OscInt 255, OscInt 0] \<and>
   count_list (tap_payloads (run_wire always_up repr_example three_chunks (PyInt 0) (PyInt 0)))
     (OscInt 255) = 2 \<and>
   count_list (tap_payloads (run_wire always_up repr_example three_chunks (PyInt 0) (PyInt 0)))
     (OscInt 0) = 2"
proof -
  let ?W = "run_wire always_up repr_example three_chunks (PyInt 0) (PyInt 0)"
  have len: "length ?W = 6" by (simp add: run_wire_three_chunks)
  have m3: "length ?W mod 3 = 0" by (simp add: len)
  have ret: "is_Returned (relay always_up repr_example three_chunks
      (initial_world (PyInt 0) (PyInt 0)))"
    by (simp only: run_returned accepted_always_up)
  have bc: "beat_count three_chunks = 2" by (simp add: beat_count_def three_chunks_def)
  have "tap_payloads ?W = pulse_train (2 * beat_count three_chunks)"
    using tap_channel_alternates [of always_up repr_example three_chunks "PyInt 0" "PyInt 0"] ret
    by blast
  moreover have "2 * beat_count three_chunks = Suc (Suc (Suc (Suc 0)))"
    by (simp add: bc)
  moreover have "pulse_train (Suc (Suc (Suc (Suc 0)))) =
      [OscInt 255, OscInt 0, OscInt 255, OscInt 0]"
    by simp
  ultimately have taps: "tap_payloads ?W = [OscInt 255, OscInt 0, OscInt 255, OscInt 0]"
    by simp
  have cnt: "count_list (tap_payloads ?W) (OscInt 255) = length ?W div 3 \<and>
      count_list (tap_payloads ?W) (OscInt 0) = length ?W div 3"
    using tap_channel_alternates [of always_up repr_example three_chunks "PyInt 0" "PyInt 0"] m3
    by blast
  show ?thesis using m3 ret taps cnt by (simp add: len)
qed

end
